theory Spec2Isabelle
  imports Main "HOL-Library.Word"
begin

section \<open>Bytes, errors and results\<close>

text \<open>
  The header \<^verbatim>\<open>include/memory_signature.hpp\<close> defines the class
  \<^verbatim>\<open>jm::memory_signature\<close>: an owned byte buffer (\<^verbatim>\<open>_pattern\<close>), a raw pointer one past
  its last byte (\<^verbatim>\<open>_end\<close>) and a wildcard byte (\<^verbatim>\<open>_wildcard\<close>). An \<^verbatim>\<open>unsigned char\<close> is an
  8-bit word. The two exceptions the header throws are values of \<open>error\<close>; a third value
  stands for every execution the C++ standard leaves undefined (a read through a null or
  dangling pointer, a read past the end of a sequence, the difference of pointers into
  different arrays, an invalid iterator range handed to a library algorithm).
\<close>

type_synonym byte = "8 word"

datatype error = Range_Error | Invalid_Argument | Undefined_Behaviour

definition and_then :: "error + 'a \<Rightarrow> ('a \<Rightarrow> error + 'b) \<Rightarrow> error + 'b" where
  "and_then r f = (case r of Inl e \<Rightarrow> Inl e | Inr x \<Rightarrow> f x)"

section \<open>Wildcard derivation (namespace detail)\<close>

text \<open>
  \<^verbatim>\<open>find_wildcard(first, last, cmp)\<close> fills a \<^verbatim>\<open>std::bitset<256>\<close> with
  \<^verbatim>\<open>bits[*first] = cmp(*first)\<close> for every element, then returns the first index
  \<^verbatim>\<open>i\<close> in \<^verbatim>\<open>0..255\<close> with \<^verbatim>\<open>!bits[i]\<close>, and throws \<^verbatim>\<open>std::range_error\<close> when there is
  none. The bitset is a function from indices to bits. The comparator is a closure with
  mutable captured state \<open>'s\<close>; a call may be undefined.
\<close>

fun find_wildcard_fill ::
  "('s \<Rightarrow> byte \<Rightarrow> error + bool \<times> 's) \<Rightarrow> byte list \<Rightarrow> 's \<Rightarrow> (nat \<Rightarrow> bool) \<Rightarrow> error + (nat \<Rightarrow> bool)"
where
  "find_wildcard_fill cmp [] s bits = Inr bits"
| "find_wildcard_fill cmp (x # xs) s bits =
     (case cmp s x of
        Inl e \<Rightarrow> Inl e
      | Inr (b, s') \<Rightarrow> find_wildcard_fill cmp xs s' (bits(unat x := b)))"

definition find_wildcard_scan :: "(nat \<Rightarrow> bool) \<Rightarrow> error + byte" where
  "find_wildcard_scan bits =
     (case List.find (\<lambda>i. \<not> bits i) [0..<256] of
        None \<Rightarrow> Inl Range_Error
      | Some i \<Rightarrow> Inr (of_nat i))"

definition find_wildcard ::
  "('s \<Rightarrow> byte \<Rightarrow> error + bool \<times> 's) \<Rightarrow> byte list \<Rightarrow> 's \<Rightarrow> error + byte"
where
  "find_wildcard cmp pat s =
     and_then (find_wildcard_fill cmp pat s (\<lambda>i. False)) find_wildcard_scan"

text \<open>
  The closure of \<^verbatim>\<open>find_wildcard_masked\<close>,
  \<^verbatim>\<open>[=]() mutable { return *mask_first++ != unknown; }\<close>: its state is the rest of the
  mask, and reading past the end of the mask is undefined. The header declares the closure
  without a parameter and calls it as \<^verbatim>\<open>cmp(*first)\<close> (and leaves the template parameter
  \<^verbatim>\<open>Cmp\<close> of \<^verbatim>\<open>find_wildcard_masked\<close> to no argument); the model takes the closure's body
  as the comparison, which does not depend on the byte. Bytes are unsigned: the
  \<^verbatim>\<open>std::string\<close> overloads index the bitset with a plain \<^verbatim>\<open>char\<close>, which is modelled for
  the values an \<^verbatim>\<open>unsigned char\<close> holds.
\<close>

definition mask_cmp :: "byte \<Rightarrow> byte list \<Rightarrow> byte \<Rightarrow> error + bool \<times> byte list" where
  "mask_cmp unknown msk x =
     (case msk of
        [] \<Rightarrow> Inl Undefined_Behaviour
      | m # ms \<Rightarrow> Inr (m \<noteq> unknown, ms))"

definition find_wildcard_masked :: "byte list \<Rightarrow> byte list \<Rightarrow> byte \<Rightarrow> error + byte" where
  "find_wildcard_masked pat msk unknown = find_wildcard (mask_cmp unknown) pat msk"

section \<open>Objects and the free store\<close>

text \<open>
  A pointer is null or an offset into an allocated block. A \<^verbatim>\<open>memory_signature\<close> object
  holds the block its \<^verbatim>\<open>unique_ptr\<close> owns (\<open>None\<close> for \<^verbatim>\<open>nullptr\<close>), the raw \<^verbatim>\<open>_end\<close>
  pointer and the wildcard. The program state maps object identities to objects and
  block addresses to block contents, so that \<^verbatim>\<open>this\<close> and \<^verbatim>\<open>other\<close> may be the same
  object and two objects may point into the same block.
\<close>

datatype ptr = Null | Ptr nat nat

record memory_signature =
  m_pattern :: "nat option"
  m_end :: ptr
  m_wildcard :: byte

record state =
  objs :: "nat \<Rightarrow> memory_signature option"
  heap :: "nat \<Rightarrow> byte list option"
  fresh :: nat

definition get :: "nat option \<Rightarrow> ptr" where
  "get p = (case p of None \<Rightarrow> Null | Some a \<Rightarrow> Ptr a 0)"

text \<open>
  Pointer difference \<^verbatim>\<open>p - q\<close>: defined for two null pointers and for two pointers into
  the same array. The header only subtracts \<^verbatim>\<open>_pattern.get()\<close>, the start of a block, so
  a defined difference is never negative.
\<close>

fun ptr_diff :: "ptr \<Rightarrow> ptr \<Rightarrow> error + nat" where
  "ptr_diff Null Null = Inr 0"
| "ptr_diff (Ptr a i) (Ptr b j) =
     (if a = b \<and> j \<le> i then Inr (i - j) else Inl Undefined_Behaviour)"
| "ptr_diff p q = Inl Undefined_Behaviour"

definition size_sig :: "memory_signature \<Rightarrow> error + nat" where
  "size_sig s = ptr_diff (m_end s) (get (m_pattern s))"

definition lookup :: "state \<Rightarrow> nat \<Rightarrow> error + memory_signature" where
  "lookup st x = (case objs st x of None \<Rightarrow> Inl Undefined_Behaviour | Some s \<Rightarrow> Inr s)"

definition put :: "nat \<Rightarrow> memory_signature \<Rightarrow> state \<Rightarrow> state" where
  "put x s st = st\<lparr>objs := (objs st)(x \<mapsto> s)\<rparr>"

text \<open>
  \<^verbatim>\<open>new unsigned char[n]\<close> returns a fresh non-null block, also for \<open>n = 0\<close>. Its bytes
  are indeterminate in C++; every constructor overwrites all of them before any read,
  and the model fills them with zero. \<^verbatim>\<open>delete[]\<close> of a null pointer does nothing.
\<close>

definition new_array :: "nat \<Rightarrow> state \<Rightarrow> nat \<times> state" where
  "new_array n st =
     (fresh st, st\<lparr>heap := (heap st)(fresh st \<mapsto> replicate n 0), fresh := Suc (fresh st)\<rparr>)"

definition delete_array :: "nat option \<Rightarrow> state \<Rightarrow> state" where
  "delete_array p st = (case p of None \<Rightarrow> st | Some a \<Rightarrow> st\<lparr>heap := (heap st)(a := None)\<rparr>)"

text \<open>
  The bytes of a valid range \<^verbatim>\<open>[first, last)\<close>: both pointers null, or both into one live
  block with \<open>first \<le> last \<le> size\<close>. Any other pair is not a valid range.
\<close>

fun read_range :: "state \<Rightarrow> ptr \<Rightarrow> ptr \<Rightarrow> error + byte list" where
  "read_range st Null Null = Inr []"
| "read_range st (Ptr a i) (Ptr b j) =
     (case heap st a of
        None \<Rightarrow> Inl Undefined_Behaviour
      | Some bs \<Rightarrow>
          if a = b \<and> i \<le> j \<and> j \<le> length bs then Inr (take (j - i) (drop i bs))
          else Inl Undefined_Behaviour)"
| "read_range st p q = Inl Undefined_Behaviour"

text \<open>Writing \<open>bs\<close> to the start of block \<open>d\<close>, as \<^verbatim>\<open>std::copy\<close> does through its output pointer.\<close>

definition write_block :: "nat \<Rightarrow> byte list \<Rightarrow> state \<Rightarrow> error + state" where
  "write_block d bs st =
     (case heap st d of
        None \<Rightarrow> Inl Undefined_Behaviour
      | Some old \<Rightarrow>
          if length bs \<le> length old
          then Inr (st\<lparr>heap := (heap st)(d \<mapsto> bs @ drop (length bs) old)\<rparr>)
          else Inl Undefined_Behaviour)"

definition std_copy :: "ptr \<Rightarrow> ptr \<Rightarrow> nat \<Rightarrow> state \<Rightarrow> error + state" where
  "std_copy s_first s_last d st = and_then (read_range st s_first s_last) (\<lambda>bs. write_block d bs st)"

definition store_byte :: "nat \<Rightarrow> nat \<Rightarrow> byte \<Rightarrow> state \<Rightarrow> error + state" where
  "store_byte a off v st =
     (case heap st a of
        None \<Rightarrow> Inl Undefined_Behaviour
      | Some bs \<Rightarrow>
          if off < length bs then Inr (st\<lparr>heap := (heap st)(a \<mapsto> bs[off := v])\<rparr>)
          else Inl Undefined_Behaviour)"

section \<open>Constructors and assignment\<close>

text \<open>The default constructor: \<^verbatim>\<open>_pattern(nullptr), _end(nullptr), _wildcard(0)\<close>.\<close>

definition ctor_default :: "nat \<Rightarrow> state \<Rightarrow> state" where
  "ctor_default this st = put this \<lparr>m_pattern = None, m_end = Null, m_wildcard = 0\<rparr> st"

text \<open>
  The wildcard-tagged constructors (from a \<^verbatim>\<open>std::string\<close> or an initializer list; both
  have the same body). The wildcard argument has any integer type \<^verbatim>\<open>Wildcard\<close> and is
  cast with \<^verbatim>\<open>static_cast<unsigned char>\<close>.
\<close>

definition ctor_wildcard :: "nat \<Rightarrow> byte list \<Rightarrow> int \<Rightarrow> state \<Rightarrow> error + state" where
  "ctor_wildcard this pat wildcard st =
     (case new_array (length pat) st of (p, st1) \<Rightarrow>
        let e = Ptr p (length pat);
            w = (word_of_int wildcard :: byte)
        in and_then (write_block p pat st1) (\<lambda>st2.
           Inr (put this \<lparr>m_pattern = Some p, m_end = e, m_wildcard = w\<rparr> st2)))"

text \<open>
  \<^verbatim>\<open>masked_to_wilcard\<close>: one pass over the pattern and the mask, writing through
  \<^verbatim>\<open>my_pat\<close> (block \<open>a\<close>, offset \<open>off\<close>).
\<close>

fun masked_to_wilcard ::
  "byte \<Rightarrow> byte list \<Rightarrow> byte list \<Rightarrow> byte \<Rightarrow> nat \<Rightarrow> nat \<Rightarrow> state \<Rightarrow> error + state"
where
  "masked_to_wilcard w [] msk unknown a off st = Inr st"
| "masked_to_wilcard w (x # xs) [] unknown a off st = Inl Undefined_Behaviour"
| "masked_to_wilcard w (x # xs) (m # ms) unknown a off st =
     and_then (store_byte a off (if m \<noteq> unknown then x else w) st)
       (masked_to_wilcard w xs ms unknown a (Suc off))"

text \<open>
  The masked constructors. The member initialisers run first, in declaration order:
  the allocation, \<^verbatim>\<open>_end\<close>, then \<^verbatim>\<open>_wildcard(detail::find_wildcard_masked(...))\<close>. The
  length check is the first statement of the constructor body, which runs after them.
  An exception leaves no object behind.
\<close>

definition ctor_masked :: "nat \<Rightarrow> byte list \<Rightarrow> byte list \<Rightarrow> byte \<Rightarrow> state \<Rightarrow> error + state" where
  "ctor_masked this pat msk unknown st =
     (case new_array (length pat) st of (p, st1) \<Rightarrow>
        let e = Ptr p (length pat)
        in and_then (find_wildcard_masked pat msk unknown) (\<lambda>w.
           if length pat \<noteq> length msk then Inl Invalid_Argument
           else and_then (masked_to_wilcard w pat msk unknown p 0 st1) (\<lambda>st2.
             Inr (put this \<lparr>m_pattern = Some p, m_end = e, m_wildcard = w\<rparr> st2))))"

text \<open>The copy constructor.\<close>

definition copy_ctor :: "nat \<Rightarrow> nat \<Rightarrow> state \<Rightarrow> error + state" where
  "copy_ctor this other st =
     and_then (lookup st other) (\<lambda>ot.
     let w = m_wildcard ot in
     and_then (size_sig ot) (\<lambda>n.
     case new_array n st of (new_pat, st1) \<Rightarrow>
     and_then (std_copy (get (m_pattern ot)) (m_end ot) new_pat st1) (\<lambda>st2.
     and_then (size_sig ot) (\<lambda>n'.
     Inr (put this \<lparr>m_pattern = Some new_pat, m_end = Ptr new_pat n', m_wildcard = w\<rparr> st2)))))"

text \<open>
  Copy assignment, statement by statement; \<^verbatim>\<open>other\<close> is read from the current state at
  each statement, since it may be \<^verbatim>\<open>*this\<close>. Assigning to the \<^verbatim>\<open>unique_ptr\<close> releases the
  block it owned before.
\<close>

definition copy_assign :: "nat \<Rightarrow> nat \<Rightarrow> state \<Rightarrow> error + state" where
  "copy_assign this other st =
     and_then (lookup st other) (\<lambda>o1.
     and_then (size_sig o1) (\<lambda>n.
     case new_array n st of (new_pat, st1) \<Rightarrow>
     and_then (std_copy (get (m_pattern o1)) (m_end o1) new_pat st1) (\<lambda>st2.
     and_then (lookup st2 this) (\<lambda>t1.
     let st3 = delete_array (m_pattern t1) (put this (t1\<lparr>m_pattern := Some new_pat\<rparr>) st2) in
     and_then (lookup st3 this) (\<lambda>t2.
     and_then (lookup st3 other) (\<lambda>o2.
     and_then (size_sig o2) (\<lambda>n'.
     case get (m_pattern t2) of
       Null \<Rightarrow> Inl Undefined_Behaviour
     | Ptr a i \<Rightarrow>
         let st4 = put this (t2\<lparr>m_end := Ptr a (i + n')\<rparr>) st3 in
         and_then (lookup st4 this) (\<lambda>t3.
         and_then (lookup st4 other) (\<lambda>o3.
         Inr (put this (t3\<lparr>m_wildcard := m_wildcard o3\<rparr>) st4))))))))))"

text \<open>
  The move constructor: \<^verbatim>\<open>_pattern(std::move(other._pattern))\<close> takes the block and nulls
  \<^verbatim>\<open>other._pattern\<close>; \<^verbatim>\<open>_end\<close> and \<^verbatim>\<open>_wildcard\<close> are copied; nothing else of \<^verbatim>\<open>other\<close>
  is written.
\<close>

definition move_ctor :: "nat \<Rightarrow> nat \<Rightarrow> state \<Rightarrow> error + state" where
  "move_ctor this other st =
     and_then (lookup st other) (\<lambda>o1.
     let p = m_pattern o1;
         st1 = put other (o1\<lparr>m_pattern := None\<rparr>) st in
     and_then (lookup st1 other) (\<lambda>o2.
     Inr (put this \<lparr>m_pattern = p, m_end = m_end o2, m_wildcard = m_wildcard o2\<rparr> st1)))"

text \<open>
  Move assignment. \<^verbatim>\<open>_pattern = std::move(other._pattern)\<close> is
  \<^verbatim>\<open>reset(other._pattern.release())\<close>: the source pointer is nulled first, then the old
  block of \<^verbatim>\<open>*this\<close> is released.
\<close>

definition move_assign :: "nat \<Rightarrow> nat \<Rightarrow> state \<Rightarrow> error + state" where
  "move_assign this other st =
     and_then (lookup st other) (\<lambda>o1.
     let p = m_pattern o1;
         st1 = put other (o1\<lparr>m_pattern := None\<rparr>) st in
     and_then (lookup st1 this) (\<lambda>t1.
     let st2 = delete_array (m_pattern t1) (put this (t1\<lparr>m_pattern := p\<rparr>) st1) in
     and_then (lookup st2 this) (\<lambda>t2.
     and_then (lookup st2 other) (\<lambda>o2.
     let st3 = put this (t2\<lparr>m_end := m_end o2\<rparr>) st2 in
     and_then (lookup st3 this) (\<lambda>t3.
     and_then (lookup st3 other) (\<lambda>o3.
     Inr (put this (t3\<lparr>m_wildcard := m_wildcard o3\<rparr>) st3)))))))"

section \<open>Search\<close>

text \<open>
  \<^verbatim>\<open>std::search(first, last, s_first, s_last, pred)\<close> of the C++ standard library, on
  the buffer and the pattern as lists: for each start position in turn, compare element by
  element; return the start position when the pattern is exhausted, \<^verbatim>\<open>last\<close> when the
  buffer is exhausted first, and move on by one at a mismatch. Positions are offsets from
  \<^verbatim>\<open>first\<close>, so \<^verbatim>\<open>last\<close> is the length of the buffer.
\<close>

datatype outcome = Found | Exhausted | Mismatch

fun match_here :: "('a \<Rightarrow> 'b \<Rightarrow> bool) \<Rightarrow> 'a list \<Rightarrow> 'b list \<Rightarrow> outcome" where
  "match_here pred buf [] = Found"
| "match_here pred [] (s # ss) = Exhausted"
| "match_here pred (b # bs) (s # ss) = (if pred b s then match_here pred bs ss else Mismatch)"

fun std_search :: "('a \<Rightarrow> 'b \<Rightarrow> bool) \<Rightarrow> 'a list \<Rightarrow> 'b list \<Rightarrow> nat" where
  "std_search pred [] pat = 0"
| "std_search pred (b # bs) pat =
     (case match_here pred (b # bs) pat of
        Found \<Rightarrow> 0
      | Exhausted \<Rightarrow> length (b # bs)
      | Mismatch \<Rightarrow> Suc (std_search pred bs pat))"

text \<open>
  \<^verbatim>\<open>find(first, last)\<close>: \<^verbatim>\<open>last\<close> when \<^verbatim>\<open>_pattern.get() == _end\<close>, else the search with the
  predicate \<^verbatim>\<open>lhs == rhs || rhs == wildcard\<close> over the range \<^verbatim>\<open>[_pattern.get(), _end)\<close>.
\<close>

definition find_sig :: "state \<Rightarrow> nat \<Rightarrow> byte list \<Rightarrow> error + nat" where
  "find_sig st this buf =
     and_then (lookup st this) (\<lambda>s.
       if get (m_pattern s) = m_end s then Inr (length buf)
       else and_then (read_range st (get (m_pattern s)) (m_end s)) (\<lambda>pat.
              Inr (std_search (\<lambda>lhs rhs. lhs = rhs \<or> rhs = m_wildcard s) buf pat)))"

text \<open>The state before any object exists.\<close>

definition empty_state :: state where
  "empty_state = \<lparr>objs = (\<lambda>x. None), heap = (\<lambda>a. None), fresh = 0\<rparr>"


section \<open>Vocabulary of the properties\<close>

text \<open>
  The class invariant every constructor establishes: the object exists, and either it owns
  no block and \<^verbatim>\<open>_end\<close> is null, or it owns a live block and \<^verbatim>\<open>_end\<close> points one past the
  block's last byte.
\<close>

definition valid :: "state \<Rightarrow> nat \<Rightarrow> bool" where
  "valid st x =
     (case objs st x of
        None \<Rightarrow> False
      | Some s \<Rightarrow>
          (case m_pattern s of
             None \<Rightarrow> m_end s = Null
           | Some a \<Rightarrow>
               (case heap st a of
                  None \<Rightarrow> False
                | Some bs \<Rightarrow> m_end s = Ptr a (length bs))))"

text \<open>The Pattern an object stands for: the bytes of the block it owns, and its wildcard.\<close>

definition bytes_of :: "state \<Rightarrow> nat \<Rightarrow> byte list" where
  "bytes_of st x =
     (case objs st x of
        None \<Rightarrow> []
      | Some s \<Rightarrow>
          (case m_pattern s of
             None \<Rightarrow> []
           | Some a \<Rightarrow> (case heap st a of None \<Rightarrow> [] | Some bs \<Rightarrow> bs)))"

definition wildcard_of :: "state \<Rightarrow> nat \<Rightarrow> byte" where
  "wildcard_of st x = (case objs st x of None \<Rightarrow> 0 | Some s \<Rightarrow> m_wildcard s)"

definition owned :: "state \<Rightarrow> nat \<Rightarrow> nat option" where
  "owned st x = (case objs st x of None \<Rightarrow> None | Some s \<Rightarrow> m_pattern s)"

text \<open>Two objects share no buffer: they do not own the same block.\<close>

definition separate :: "state \<Rightarrow> nat \<Rightarrow> nat \<Rightarrow> bool" where
  "separate st x y = (case owned st x of None \<Rightarrow> True | Some a \<Rightarrow> owned st y \<noteq> Some a)"

text \<open>The allocator's invariant: no block at or beyond the next fresh address is live.\<close>

definition heap_fresh :: "state \<Rightarrow> bool" where
  "heap_fresh st \<longleftrightarrow> (\<forall>a. fresh st \<le> a \<longrightarrow> heap st a = None)"

text \<open>What \<^verbatim>\<open>find\<close> computes for a Pattern, on lists.\<close>

definition find_spec :: "byte list \<Rightarrow> byte \<Rightarrow> byte list \<Rightarrow> nat" where
  "find_spec pat w buf =
     (if pat = [] then length buf else std_search (\<lambda>lhs rhs. lhs = rhs \<or> rhs = w) buf pat)"

text \<open>
  The window of \<open>buf\<close> at position \<open>i\<close> lies inside the buffer and satisfies the predicate
  at every position of the pattern.
\<close>

definition hit :: "('a \<Rightarrow> 'b \<Rightarrow> bool) \<Rightarrow> 'b list \<Rightarrow> 'a list \<Rightarrow> nat \<Rightarrow> bool" where
  "hit pred pat buf i \<longleftrightarrow>
     i + length pat \<le> length buf \<and> (\<forall>k<length pat. pred (buf ! (i + k)) (pat ! k))"

text \<open>
  A matching window in the words of the specification: at every position the pattern byte
  equals the buffer byte, or the pattern byte equals the wildcard.
\<close>

definition window_matches :: "byte list \<Rightarrow> byte \<Rightarrow> byte list \<Rightarrow> nat \<Rightarrow> bool" where
  "window_matches pat w buf i \<longleftrightarrow>
     i + length pat \<le> length buf \<and>
     (\<forall>k<length pat. pat ! k = buf ! (i + k) \<or> pat ! k = w)"

text \<open>
  A state with one object: the signature \<^verbatim>\<open>{0x41, 0x00, 0x43}\<close> with wildcard \<^verbatim>\<open>0x00\<close>.
\<close>

definition example_state :: state where
  "example_state =
     \<lparr>objs = (\<lambda>x. None)(0 \<mapsto> \<lparr>m_pattern = Some 0, m_end = Ptr 0 3, m_wildcard = 0\<rparr>),
      heap = (\<lambda>a. None)(0 \<mapsto> [0x41, 0x00, 0x43]),
      fresh = 1\<rparr>"

text \<open>
  The constructors are overloads of one name; \<open>construct\<close> selects one by the shape of
  its arguments, as overload resolution does.
\<close>

datatype ctor_args =
    Default_Args
  | Wildcard_Args "byte list" int
  | Masked_Args "byte list" "byte list" byte

fun construct :: "ctor_args \<Rightarrow> nat \<Rightarrow> state \<Rightarrow> error + state" where
  "construct Default_Args this st = Inr (ctor_default this st)"
| "construct (Wildcard_Args pat w) this st = ctor_wildcard this pat w st"
| "construct (Masked_Args pat msk unknown) this st = ctor_masked this pat msk unknown st"

text \<open>
  A state with two objects: the signature above, and \<^verbatim>\<open>{0x10}\<close> with wildcard \<^verbatim>\<open>0x10\<close>.
\<close>

definition example_state2 :: state where
  "example_state2 =
     \<lparr>objs = (\<lambda>x. None)(0 \<mapsto> \<lparr>m_pattern = Some 0, m_end = Ptr 0 3, m_wildcard = 0\<rparr>,
                        1 \<mapsto> \<lparr>m_pattern = Some 1, m_end = Ptr 1 1, m_wildcard = 0x10\<rparr>),
      heap = (\<lambda>a. None)(0 \<mapsto> [0x41, 0x00, 0x43], 1 \<mapsto> [0x10]),
      fresh = 2\<rparr>"

section \<open>Basic facts\<close>

lemma and_then_Inr [simp]: "and_then (Inr x) f = f x"
  by (simp add: and_then_def)

lemma and_then_Inl [simp]: "and_then (Inl e) f = Inl e"
  by (simp add: and_then_def)

lemma example_state_built: "ctor_wildcard 0 [0x41, 0x00, 0x43] 0 empty_state = Inr example_state"
  by (simp add: ctor_wildcard_def new_array_def write_block_def put_def empty_state_def
      example_state_def numeral_3_eq_3)

lemma find_sig_valid:
  assumes "valid st x"
  shows "find_sig st x buf = Inr (find_spec (bytes_of st x) (wildcard_of st x) buf)"
  using assms
  by (auto simp: valid_def find_sig_def lookup_def bytes_of_def wildcard_of_def find_spec_def
      get_def split: option.splits)

subsection \<open>The search returns the first hit\<close>

lemma match_here_Found_iff: "match_here pred buf pat = Found \<longleftrightarrow> hit pred pat buf 0"
  unfolding hit_def
  by (induction pred buf pat rule: match_here.induct) (auto simp: All_less_Suc2)

lemma match_here_Exhausted: "match_here pred buf pat = Exhausted \<Longrightarrow> length buf < length pat"
  by (induction pred buf pat rule: match_here.induct) (auto split: if_splits)

lemma hit_Cons_Suc [simp]: "hit pred pat (b # bs) (Suc i) = hit pred pat bs i"
  by (simp add: hit_def)

lemma std_search_le: "std_search pred buf pat \<le> length buf"
  by (induction buf) (auto split: outcome.splits)

lemma std_search_hit:
  "pat \<noteq> [] \<Longrightarrow> std_search pred buf pat < length buf \<Longrightarrow>
   hit pred pat buf (std_search pred buf pat)"
proof (induction buf)
  case Nil
  then show ?case by simp
next
  case (Cons b bs)
  show ?case
  proof (cases "match_here pred (b # bs) pat")
    case Found
    then show ?thesis by (simp add: match_here_Found_iff [symmetric])
  next
    case Exhausted
    with Cons.prems show ?thesis by simp
  next
    case Mismatch
    with Cons show ?thesis by simp
  qed
qed

lemma std_search_first:
  "pat \<noteq> [] \<Longrightarrow> hit pred pat buf j \<Longrightarrow> std_search pred buf pat \<le> j"
proof (induction buf arbitrary: j)
  case Nil
  then show ?case by (simp add: hit_def)
next
  case (Cons b bs)
  show ?case
  proof (cases "match_here pred (b # bs) pat")
    case Found
    then show ?thesis by simp
  next
    case Exhausted
    with Cons.prems match_here_Exhausted[OF Exhausted] show ?thesis by (simp add: hit_def)
  next
    case Mismatch
    have "j \<noteq> 0"
    proof
      assume "j = 0"
      with Cons.prems have "match_here pred (b # bs) pat = Found"
        by (simp add: match_here_Found_iff)
      with Mismatch show False by simp
    qed
    then obtain j' where "j = Suc j'" by (cases j) auto
    with Cons Mismatch show ?thesis by simp
  qed
qed

lemma window_matches_hit:
  "window_matches pat w buf i = hit (\<lambda>lhs rhs. lhs = rhs \<or> rhs = w) pat buf i"
  by (auto simp: window_matches_def hit_def)

lemma find_spec_le: "find_spec pat w buf \<le> length buf"
  by (simp add: find_spec_def std_search_le)

lemma find_spec_first:
  assumes "pat \<noteq> []" and "window_matches pat w buf j"
  shows "window_matches pat w buf (find_spec pat w buf)"
    and "find_spec pat w buf \<le> j"
proof -
  let ?p = "\<lambda>lhs rhs. lhs = rhs \<or> rhs = w"
  from assms have h: "hit ?p pat buf j" by (simp add: window_matches_hit)
  from std_search_first[OF assms(1) h] show le: "find_spec pat w buf \<le> j"
    using assms(1) by (simp add: find_spec_def)
  from h assms(1) have "j < length buf" by (cases pat) (auto simp: hit_def)
  with le have "std_search ?p buf pat < length buf"
    using assms(1) by (simp add: find_spec_def)
  from std_search_hit[OF assms(1) this] show "window_matches pat w buf (find_spec pat w buf)"
    using assms(1) by (simp add: find_spec_def window_matches_hit)
qed

lemma find_spec_none:
  assumes "pat \<noteq> []" and "\<nexists>i. window_matches pat w buf i"
  shows "find_spec pat w buf = length buf"
proof (rule ccontr)
  let ?p = "\<lambda>lhs rhs. lhs = rhs \<or> rhs = w"
  assume "find_spec pat w buf \<noteq> length buf"
  with find_spec_le[of pat w buf] have "std_search ?p buf pat < length buf"
    using assms(1) by (simp add: find_spec_def)
  from std_search_hit[OF assms(1) this] assms(2) show False
    by (simp add: window_matches_hit)
qed

lemma window_matches_wildcard_any:
  assumes "window_matches pat w buf i" and "k < length pat" and "pat ! k = w"
  shows "window_matches pat w (buf[i + k := v]) i"
  using assms by (auto simp: window_matches_def nth_list_update)

section \<open>Properties of the search\<close>

text \<open>
  C5. On an empty Pattern (its \<^verbatim>\<open>size()\<close> is 0: default constructed, or built from an
  empty sequence), \<^verbatim>\<open>find\<close> returns \<^verbatim>\<open>last\<close>, the end of the caller's buffer, for every
  buffer. No assumption is made on the free store: the guard returns before anything is
  read.
\<close>

theorem find_empty_pattern:
  assumes "lookup st x = Inr s" and "size_sig s = Inr 0"
  shows "find_sig st x buf = Inr (length buf)"
proof -
  from assms(2) have "get (m_pattern s) = m_end s"
    by (cases "m_end s"; cases "m_pattern s") (auto simp: size_sig_def get_def split: if_splits)
  with assms(1) show ?thesis by (simp add: find_sig_def)
qed

theorem find_empty_pattern_witness:
  "lookup (ctor_default 0 empty_state) 0 = Inr \<lparr>m_pattern = None, m_end = Null, m_wildcard = 0\<rparr> \<and>
   size_sig \<lparr>m_pattern = None, m_end = Null, m_wildcard = 0\<rparr> = Inr 0 \<and>
   find_sig (ctor_default 0 empty_state) 0 [0x41, 0x42] = Inr 2"
proof -
  have l: "lookup (ctor_default 0 empty_state) 0 =
      Inr \<lparr>m_pattern = None, m_end = Null, m_wildcard = 0\<rparr>"
    by (simp add: lookup_def ctor_default_def put_def)
  have z: "size_sig \<lparr>m_pattern = None, m_end = Null, m_wildcard = 0\<rparr> = Inr 0"
    by (simp add: size_sig_def get_def)
  from find_empty_pattern[OF l z, of "[0x41, 0x42]"] l z show ?thesis by simp
qed

text \<open>
  On every object that satisfies the class invariant, \<^verbatim>\<open>find\<close> returns a position: an
  offset into the buffer or its end. Its loops are structural recursions over the finite
  buffer. An object that has been moved from does not satisfy the invariant (see the last
  section).
\<close>

lemma find_valid_position:
  assumes "valid st x"
  shows "\<exists>r. find_sig st x buf = Inr r \<and> r \<le> length buf"
  using find_sig_valid[OF assms, of buf] find_spec_le by simp

lemma find_valid_position_example:
  "valid example_state 0 \<and> find_sig example_state 0 [0x41] = Inr 1 \<and> (1::nat) \<le> length [0x41::byte]"
proof -
  have v: "valid example_state 0" by (simp add: valid_def example_state_def)
  from find_valid_position[OF v, of "[0x41]"] obtain r
    where r: "find_sig example_state 0 [0x41] = Inr r" by blast
  have "find_sig example_state 0 [0x41] = Inr 1"
    by (simp add: find_sig_def lookup_def example_state_def get_def)
  with v r show ?thesis by simp
qed


text \<open>
  C3. With the guard for the empty Pattern set apart, \<^verbatim>\<open>find\<close> returns the first matching
  window: for a non-empty Pattern, if some window of the buffer matches, the result is a
  matching window and no earlier window matches; if none matches, the result is the end
  of the buffer; a buffer shorter than the pattern gives the end of the buffer; and at a
  position where the pattern holds the wildcard value a window keeps matching whatever
  byte the buffer holds there, the wildcard value included.
\<close>

theorem find_first_window:
  assumes "valid st x" and "bytes_of st x \<noteq> []"
  shows "\<exists>r. find_sig st x buf = Inr r \<and>
           (if \<exists>i. window_matches (bytes_of st x) (wildcard_of st x) buf i
            then window_matches (bytes_of st x) (wildcard_of st x) buf r \<and>
                 (\<forall>j<r. \<not> window_matches (bytes_of st x) (wildcard_of st x) buf j)
            else r = length buf) \<and>
           (length buf < length (bytes_of st x) \<longrightarrow> r = length buf) \<and>
           (\<forall>i k v. window_matches (bytes_of st x) (wildcard_of st x) buf i \<and>
                    k < length (bytes_of st x) \<and> bytes_of st x ! k = wildcard_of st x \<longrightarrow>
                    window_matches (bytes_of st x) (wildcard_of st x) (buf[i + k := v]) i)"
proof -
  let ?pat = "bytes_of st x" and ?w = "wildcard_of st x"
  let ?r = "find_spec ?pat ?w buf"
  have r: "find_sig st x buf = Inr ?r" by (rule find_sig_valid[OF assms(1)])
  have first: "window_matches ?pat ?w buf ?r \<and> (\<forall>j<?r. \<not> window_matches ?pat ?w buf j)"
    if "\<exists>i. window_matches ?pat ?w buf i"
  proof -
    from that obtain i where i: "window_matches ?pat ?w buf i" ..
    have "window_matches ?pat ?w buf ?r" by (rule find_spec_first(1)[OF assms(2) i])
    moreover have "\<not> window_matches ?pat ?w buf j" if "j < ?r" for j
      using find_spec_first(2)[OF assms(2), of ?w buf j] that by auto
    ultimately show ?thesis by blast
  qed
  have none: "?r = length buf" if "\<not> (\<exists>i. window_matches ?pat ?w buf i)"
    using find_spec_none[OF assms(2)] that by blast
  have short: "?r = length buf" if "length buf < length ?pat"
  proof -
    from that have "\<not> (\<exists>i. window_matches ?pat ?w buf i)"
      by (auto simp: window_matches_def)
    then show ?thesis by (rule none)
  qed
  have wild: "window_matches ?pat ?w (buf[i + k := v]) i"
    if "window_matches ?pat ?w buf i \<and> k < length ?pat \<and> ?pat ! k = ?w" for i k v
    using that window_matches_wildcard_any by blast
  show ?thesis
  proof (intro exI[of _ ?r] conjI)
    show "find_sig st x buf = Inr ?r" by (rule r)
    show "if \<exists>i. window_matches ?pat ?w buf i
          then window_matches ?pat ?w buf ?r \<and> (\<forall>j<?r. \<not> window_matches ?pat ?w buf j)
          else ?r = length buf"
    proof (cases "\<exists>i. window_matches ?pat ?w buf i")
      case True
      with first show ?thesis by simp
    next
      case False
      with none show ?thesis by simp
    qed
    show "length buf < length ?pat \<longrightarrow> ?r = length buf" using short by blast
    show "\<forall>i k v. window_matches ?pat ?w buf i \<and> k < length ?pat \<and> ?pat ! k = ?w \<longrightarrow>
            window_matches ?pat ?w (buf[i + k := v]) i"
      using wild by blast
  qed
qed

theorem find_first_window_witness:
  "valid example_state 0 \<and> bytes_of example_state 0 \<noteq> [] \<and>
   window_matches (bytes_of example_state 0) (wildcard_of example_state 0)
     [0x10, 0x41, 0x00, 0x43, 0x41, 0x99, 0x43] 1 \<and>
   find_sig example_state 0 [0x10, 0x41, 0x00, 0x43, 0x41, 0x99, 0x43] = Inr 1"
proof -
  let ?buf = "[0x10, 0x41, 0x00, 0x43, 0x41, 0x99, 0x43] :: byte list"
  have v: "valid example_state 0" by (simp add: valid_def example_state_def)
  have b: "bytes_of example_state 0 = [0x41, 0x00, 0x43]"
    by (simp add: bytes_of_def example_state_def)
  have w: "wildcard_of example_state 0 = 0" by (simp add: wildcard_of_def example_state_def)
  have n: "bytes_of example_state 0 \<noteq> []" by (simp add: b)
  have m1: "window_matches (bytes_of example_state 0) (wildcard_of example_state 0) ?buf 1"
    by (simp add: b w window_matches_def All_less_Suc numeral_3_eq_3)
  have m0: "\<not> window_matches (bytes_of example_state 0) (wildcard_of example_state 0) ?buf 0"
    by (simp add: b w window_matches_def All_less_Suc numeral_3_eq_3)
  from find_first_window[OF v n, of ?buf] obtain r where
    r: "find_sig example_state 0 ?buf = Inr r" and
    c: "if \<exists>i. window_matches (bytes_of example_state 0) (wildcard_of example_state 0) ?buf i
        then window_matches (bytes_of example_state 0) (wildcard_of example_state 0) ?buf r \<and>
             (\<forall>j<r. \<not> window_matches (bytes_of example_state 0) (wildcard_of example_state 0) ?buf j)
        else r = length ?buf"
    by blast
  have ex: "\<exists>i. window_matches (bytes_of example_state 0) (wildcard_of example_state 0) ?buf i"
    using m1 by blast
  note c [unfolded if_P[OF ex]]
  then have
    f: "window_matches (bytes_of example_state 0) (wildcard_of example_state 0) ?buf r" and
    l: "\<forall>j<r. \<not> window_matches (bytes_of example_state 0) (wildcard_of example_state 0) ?buf j"
    by blast+
  have "\<not> 1 < r"
  proof
    assume "1 < r"
    with l have "\<not> window_matches (bytes_of example_state 0) (wildcard_of example_state 0) ?buf 1"
      by simp
    with m1 show False by simp
  qed
  moreover have "r \<noteq> 0"
  proof
    assume "r = 0"
    with f have "window_matches (bytes_of example_state 0) (wildcard_of example_state 0) ?buf 0"
      by (simp only:)
    with m0 show False by simp
  qed
  ultimately have "r = 1" by arith
  with r v n m1 show ?thesis by (simp only: simp_thms)
qed

text \<open>
  The guard \<^verbatim>\<open>if (_pattern.get() == _end) return last;\<close> makes the empty Pattern differ:
  the window of length 0 at position 0 matches, yet \<^verbatim>\<open>find\<close> on the buffer \<^verbatim>\<open>{0x41}\<close>
  returns its end, position 1.
\<close>

theorem find_first_window_counterexample:
  "valid (ctor_default 0 empty_state) 0 \<and>
   window_matches (bytes_of (ctor_default 0 empty_state) 0)
     (wildcard_of (ctor_default 0 empty_state) 0) [0x41] 0 \<and>
   find_sig (ctor_default 0 empty_state) 0 [0x41] = Inr 1 \<and>
   find_sig (ctor_default 0 empty_state) 0 [0x41] \<noteq> Inr 0"
  by (simp add: valid_def ctor_default_def put_def empty_state_def window_matches_def
      bytes_of_def wildcard_of_def find_sig_def lookup_def get_def)

section \<open>The wildcard-tagged constructors\<close>

lemma ctor_wildcard_result:
  "ctor_wildcard x pat w st =
     Inr (put x \<lparr>m_pattern = Some (fresh st), m_end = Ptr (fresh st) (length pat),
                 m_wildcard = word_of_int w\<rparr>
            (st\<lparr>fresh := Suc (fresh st), heap := (heap st)(fresh st \<mapsto> pat)\<rparr>))"
  by (simp add: ctor_wildcard_def new_array_def write_block_def Let_def)

lemma ctor_wildcard_abs:
  assumes "ctor_wildcard x pat w st = Inr st'"
  shows "valid st' x" and "bytes_of st' x = pat" and "wildcard_of st' x = word_of_int w"
    and "owned st' x = Some (fresh st)" and "fresh st' = Suc (fresh st)"
  using assms unfolding ctor_wildcard_result
  by (auto simp: valid_def bytes_of_def wildcard_of_def owned_def put_def)

text \<open>
  C9. The wildcard argument is cast to \<^verbatim>\<open>unsigned char\<close>: the stored wildcard is the
  argument modulo 256. A Pattern built with wildcard \<open>w\<close> and one built from the same
  sequence with wildcard \<open>w + 256\<close> (in any two states, as any two objects) store the same
  wildcard and give the same \<^verbatim>\<open>find\<close> result on every buffer.
\<close>

theorem wildcard_cast_mod_256:
  "\<exists>sa' sb'. ctor_wildcard x pat w sa = Inr sa' \<and>
             ctor_wildcard y pat (w + 256) sb = Inr sb' \<and>
             valid sa' x \<and> valid sb' y \<and>
             uint (wildcard_of sa' x) = w mod 256 \<and>
             wildcard_of sb' y = wildcard_of sa' x \<and>
             (\<forall>buf. find_sig sa' x buf = find_sig sb' y buf)"
proof -
  obtain sa' where a: "ctor_wildcard x pat w sa = Inr sa'"
    by (simp add: ctor_wildcard_result)
  obtain sb' where b: "ctor_wildcard y pat (w + 256) sb = Inr sb'"
    by (simp add: ctor_wildcard_result)
  have c: "(word_of_int (w + 256) :: byte) = word_of_int w"
    by (simp add: word_of_int_eq_iff take_bit_eq_mod)
  have u: "uint (word_of_int w :: byte) = w mod 256" by (simp add: uint_word_of_int take_bit_eq_mod)
  note A = ctor_wildcard_abs[OF a] and B = ctor_wildcard_abs[OF b]
  have wb: "wildcard_of sb' y = wildcard_of sa' x" by (simp only: A(3) B(3) c)
  have "find_sig sa' x buf = find_sig sb' y buf" for buf
    by (simp only: find_sig_valid[OF A(1)] find_sig_valid[OF B(1)] A(2) B(2) wb)
  moreover have "uint (wildcard_of sa' x) = w mod 256" by (simp only: A(3) u)
  ultimately show ?thesis using a b A(1) B(1) wb by blast
qed


section \<open>Properties of the wildcard derivation\<close>

lemmas run_defs =
  ctor_wildcard_def ctor_masked_def ctor_default_def copy_ctor_def copy_assign_def
  move_ctor_def move_assign_def find_sig_def lookup_def put_def new_array_def delete_array_def
  write_block_def std_copy_def store_byte_def size_sig_def get_def empty_state_def Let_def

lemma find_wildcard_scan_zero: "\<not> bits 0 \<Longrightarrow> find_wildcard_scan bits = Inr 0"
proof -
  assume b: "\<not> bits 0"
  have "[0..<256] = 0 # [1..<256]" by (simp add: upt_conv_Cons)
  with b show ?thesis by (simp add: find_wildcard_scan_def)
qed

lemma find_wildcard_scan_full:
  assumes "\<forall>i<256. bits i"
  shows "find_wildcard_scan bits = Inl Range_Error"
proof -
  from assms have "List.find (\<lambda>i. \<not> bits i) [0..<256] = None"
    by (simp add: find_None_iff)
  then show ?thesis by (simp add: find_wildcard_scan_def)
qed

lemma mask_cmp_Cons [simp]: "mask_cmp u (m # ms) x = Inr (m \<noteq> u, ms)"
  by (simp add: mask_cmp_def)

lemma mask_cmp_Nil [simp]: "mask_cmp u [] x = Inl Undefined_Behaviour"
  by (simp add: mask_cmp_def)

lemma fill_known:
  "length pat \<le> length msk \<Longrightarrow> \<forall>m \<in> set (take (length pat) msk). m \<noteq> u \<Longrightarrow>
   find_wildcard_fill (mask_cmp u) pat msk bits = Inr (\<lambda>i. bits i \<or> i \<in> unat ` set pat)"
proof (induction pat arbitrary: msk bits)
  case Nil
  then show ?case by simp
next
  case (Cons x xs)
  then obtain m ms where msk: "msk = m # ms" by (cases msk) auto
  with Cons.prems have m: "m \<noteq> u" and l: "length xs \<le> length ms"
    and k: "\<forall>m \<in> set (take (length xs) ms). m \<noteq> u" by auto
  have step: "find_wildcard_fill (mask_cmp u) (x # xs) msk bits =
      find_wildcard_fill (mask_cmp u) xs ms (bits(unat x := True))"
    using msk m by simp
  have ih: "find_wildcard_fill (mask_cmp u) xs ms (bits(unat x := True)) =
      Inr (\<lambda>i. (bits(unat x := True)) i \<or> i \<in> unat ` set xs)"
    using l k by (rule Cons.IH)
  have eq: "(\<lambda>i. (bits(unat x := True)) i \<or> i \<in> unat ` set xs) =
      (\<lambda>i. bits i \<or> i \<in> unat ` set (x # xs))"
    by (rule ext) auto
  show ?case by (simp only: step ih eq)
qed

lemma fill_append:
  "length xs = length ms \<Longrightarrow>
   find_wildcard_fill (mask_cmp u) (xs @ ys) (ms @ ns) bits =
   and_then (find_wildcard_fill (mask_cmp u) xs ms bits) (find_wildcard_fill (mask_cmp u) ys ns)"
proof (induction xs arbitrary: ms bits)
  case Nil
  then show ?case by simp
next
  case (Cons x xs)
  then obtain m ms' where ms: "ms = m # ms'" by (cases ms) auto
  with Cons.prems have "length xs = length ms'" by simp
  from Cons.IH[OF this, of "bits(unat x := m \<noteq> u)"] show ?case
    by (simp only: ms append_Cons find_wildcard_fill.simps mask_cmp_Cons sum.case prod.case)
qed

lemma unat_all_bytes:
  assumes "i < 256"
  shows "i \<in> unat ` set (map of_nat [0..<256] :: byte list)"
proof (rule image_eqI[where x = "of_nat i"])
  from assms show "i = unat (of_nat i :: byte)" by (simp add: unat_of_nat)
  from assms show "(of_nat i :: byte) \<in> set (map of_nat [0..<256])" by simp
qed

lemma fill_all_bytes:
  "length pat \<le> n \<Longrightarrow> m \<noteq> u \<Longrightarrow>
   find_wildcard_fill (mask_cmp u) pat (replicate n m) bits = Inr (\<lambda>i. bits i \<or> i \<in> unat ` set pat)"
  by (rule fill_known) (auto dest: in_set_takeD)

lemma find_wildcard_scan_first:
  assumes "find_wildcard_scan bits = Inr w"
  shows "unat w < 256" and "\<not> bits (unat w)" and "\<forall>j<unat w. bits j"
proof -
  from assms obtain i where f: "List.find (\<lambda>i. \<not> bits i) [0..<256] = Some i"
    and w: "w = of_nat i"
    by (auto simp: find_wildcard_scan_def split: option.splits)
  from f have i: "i < 256" and n: "\<not> bits i" and l: "\<forall>j<i. bits j"
    by (auto simp: find_Some_iff)
  from i w have u: "unat w = i" by (simp add: unat_of_nat)
  from i n l show "unat w < 256" and "\<not> bits (unat w)" and "\<forall>j<unat w. bits j"
    unfolding u by blast+
qed

lemma find_wildcard_scan_error:
  assumes "find_wildcard_scan bits = Inl e"
  shows "e = Range_Error" and "\<forall>i<256. bits i"
  using assms
  by (auto simp: find_wildcard_scan_def find_None_iff split: option.splits)

lemma fill_marked_known:
  "find_wildcard_fill (mask_cmp u) pat msk bits = Inr bits' \<Longrightarrow> bits' i \<Longrightarrow>
   bits i \<or> (\<exists>k<length pat. k < length msk \<and> unat (pat ! k) = i \<and> msk ! k \<noteq> u)"
proof (induction pat arbitrary: msk bits)
  case Nil
  then show ?case by simp
next
  case (Cons x xs)
  from Cons.prems(1) obtain m ms where msk: "msk = m # ms" by (cases msk) auto
  with Cons.prems(1) have
    "find_wildcard_fill (mask_cmp u) xs ms (bits(unat x := m \<noteq> u)) = Inr bits'"
    by simp
  from Cons.IH[OF this Cons.prems(2)]
  consider "(bits(unat x := m \<noteq> u)) i"
    | k where "k < length xs" "k < length ms" "unat (xs ! k) = i" "ms ! k \<noteq> u"
    by blast
  then show ?case
  proof cases
    case 1
    show ?thesis
    proof (cases "i = unat x")
      case True
      with 1 have "m \<noteq> u" by simp
      with True msk have "0 < length (x # xs) \<and> 0 < length msk \<and> unat ((x # xs) ! 0) = i \<and>
          msk ! 0 \<noteq> u" by simp
      then show ?thesis by blast
    next
      case False
      with 1 show ?thesis by simp
    qed
  next
    case 2
    with msk have "Suc k < length (x # xs) \<and> Suc k < length msk \<and>
        unat ((x # xs) ! Suc k) = i \<and> msk ! Suc k \<noteq> u" by simp
    then show ?thesis by blast
  qed
qed

lemma fill_error_UB:
  "find_wildcard_fill (mask_cmp u) pat msk bits = Inl e \<Longrightarrow> e = Undefined_Behaviour"
proof (induction pat arbitrary: msk bits)
  case Nil
  then show ?case by simp
next
  case (Cons x xs)
  then show ?case by (cases msk) auto
qed

text \<open>
  What the scan returns is the first unmarked entry, and the error is raised only if every
  byte value stands at some known position. The converse fails: a later unknown occurrence
  unmarks a value.
\<close>

lemma range_error_only_if_all_known:
  assumes "find_wildcard_masked pat msk u = Inl Range_Error"
  shows "\<exists>k<length pat. k < length msk \<and> pat ! k = v \<and> msk ! k \<noteq> u"
proof -
  from assms obtain bits' where
    f: "find_wildcard_fill (mask_cmp u) pat msk (\<lambda>i. False) = Inr bits'" and
    s: "find_wildcard_scan bits' = Inl Range_Error"
    by (cases "find_wildcard_fill (mask_cmp u) pat msk (\<lambda>i. False)")
       (auto simp: find_wildcard_masked_def find_wildcard_def dest: fill_error_UB)
  have "unat v < 256" using unsigned_less[of v, where ?'a = nat] by simp
  with find_wildcard_scan_error(2)[OF s] have "bits' (unat v)" by simp
  from fill_marked_known[OF f this] obtain k where
    "k < length pat" "k < length msk" "unat (pat ! k) = unat v" "msk ! k \<noteq> u" by auto
  then show ?thesis by (auto simp: word_unat_eq_iff)
qed

lemma fill_short_mask:
  "length msk < length pat \<Longrightarrow>
   find_wildcard_fill (mask_cmp u) pat msk bits = Inl Undefined_Behaviour"
proof (induction pat arbitrary: msk bits)
  case Nil
  then show ?case by simp
next
  case (Cons x xs)
  then show ?case by (cases msk) simp_all
qed

lemma ctor_masked_short_mask:
  "length msk < length pat \<Longrightarrow> ctor_masked x pat msk u st = Inl Undefined_Behaviour"
  by (simp add: ctor_masked_def new_array_def find_wildcard_masked_def find_wildcard_def
      fill_short_mask)

text \<open>
  C1. The table entry of a byte value is assigned at every occurrence
  (\<^verbatim>\<open>bits[*first] = cmp(*first)\<close>), not OR-ed: the last occurrence decides. For the literal
  \<^verbatim>\<open>{0x00, 0x00}\<close> with the mask \<^verbatim>\<open>"x?"\<close> the value \<^verbatim>\<open>0x00\<close> stands at the known position 0,
  and the derived wildcard is \<^verbatim>\<open>0x00\<close> all the same. The Pattern built is \<^verbatim>\<open>{0x00, 0x00}\<close>
  with wildcard \<^verbatim>\<open>0x00\<close>, and it matches the buffer \<^verbatim>\<open>{0x05, 0x07}\<close> at position 0, where
  the known byte differs.
\<close>

theorem known_flag_overwritten:
  "find_wildcard_masked [0x00, 0x00] [0x78, 0x3F] 0x3F = Inr 0x00 \<and>
   and_then (ctor_masked 0 [0x00, 0x00] [0x78, 0x3F] 0x3F empty_state)
     (\<lambda>st. Inr (bytes_of st 0, wildcard_of st 0)) = Inr ([0x00, 0x00], 0x00) \<and>
   and_then (ctor_masked 0 [0x00, 0x00] [0x78, 0x3F] 0x3F empty_state)
     (\<lambda>st. find_sig st 0 [0x05, 0x07]) = Inr 0"
proof -
  have w: "find_wildcard_masked [0x00, 0x00] [0x78, 0x3F] 0x3F = Inr 0x00"
    by (simp add: find_wildcard_masked_def find_wildcard_def find_wildcard_scan_zero)
  have c: "ctor_masked 0 [0x00, 0x00] [0x78, 0x3F] 0x3F empty_state =
      Inr \<lparr>objs = (\<lambda>x. None)(0 \<mapsto> \<lparr>m_pattern = Some 0, m_end = Ptr 0 2, m_wildcard = 0\<rparr>),
           heap = (\<lambda>a. None)(0 \<mapsto> [0x00, 0x00]), fresh = 1\<rparr>"
    by (simp add: ctor_masked_def w new_array_def store_byte_def put_def empty_state_def
        numeral_2_eq_2)
  show ?thesis
    by (simp add: w c bytes_of_def wildcard_of_def find_sig_def lookup_def get_def)
qed

text \<open>
  C4. The derived wildcard is the first unmarked entry of the table, but an entry is
  unmarked when the last occurrence of its value is at an unknown position. For
  \<^verbatim>\<open>{0x00, 0x01, 0x00}\<close> with the mask \<^verbatim>\<open>"xx?"\<close> the smallest value at no known position is
  \<^verbatim>\<open>0x02\<close>, and the code derives \<^verbatim>\<open>0x00\<close>. For the literal of all 256 byte values followed
  by \<^verbatim>\<open>0x00\<close>, with 256 known positions and one unknown, every value stands at a known
  position, and the code raises no error: it derives \<^verbatim>\<open>0x00\<close>.
\<close>

theorem derivation_not_least_unused:
  "find_wildcard_masked [0x00, 0x01, 0x00] [0x78, 0x78, 0x3F] 0x3F = Inr 0x00 \<and>
   find_wildcard_masked (map of_nat [0..<256] @ [0x00]) (replicate 256 0x78 @ [0x3F]) 0x3F = Inr 0x00"
proof -
  have a: "find_wildcard_masked [0x00, 0x01, 0x00] [0x78, 0x78, 0x3F] 0x3F = Inr 0x00"
    by (simp add: find_wildcard_masked_def find_wildcard_def find_wildcard_scan_zero)
  have b: "find_wildcard_masked (map of_nat [0..<256] @ [0x00]) (replicate 256 0x78 @ [0x3F]) 0x3F = Inr 0x00"
    unfolding find_wildcard_masked_def find_wildcard_def
    by (subst fill_append) (simp_all add: fill_all_bytes find_wildcard_scan_zero)
  from a b show ?thesis by (rule conjI)
qed

section \<open>Effects of the constructors and of copying\<close>

lemma built:
  assumes "objs st x = Some \<lparr>m_pattern = Some a, m_end = Ptr a (length bs), m_wildcard = w\<rparr>"
    and "heap st a = Some bs"
  shows "valid st x" and "bytes_of st x = bs" and "wildcard_of st x = w" and "owned st x = Some a"
  using assms by (simp_all add: valid_def bytes_of_def wildcard_of_def owned_def)

lemma frame:
  assumes "valid st x" and "objs st' x = objs st x"
    and "\<And>a bs. heap st a = Some bs \<Longrightarrow> owned st x = Some a \<Longrightarrow> heap st' a = Some bs"
  shows "valid st' x" and "bytes_of st' x = bytes_of st x"
    and "wildcard_of st' x = wildcard_of st x" and "owned st' x = owned st x"
  using assms
  by (auto simp: valid_def bytes_of_def wildcard_of_def owned_def split: option.splits)

lemma valid_owned_live:
  assumes "valid st x" and "owned st x = Some a"
  shows "heap st a = Some (bytes_of st x)"
  using assms by (auto simp: valid_def bytes_of_def owned_def split: option.splits)

lemma valid_owned_below:
  assumes "valid st x" and "owned st x = Some a" and "heap_fresh st"
  shows "a < fresh st"
proof (rule ccontr)
  assume "\<not> a < fresh st"
  with assms(3) have "heap st a = None" by (simp add: heap_fresh_def)
  with valid_owned_live[OF assms(1,2)] show False by simp
qed

lemma masked_to_wilcard_result:
  "heap st a = Some bs \<Longrightarrow> length pat = length msk \<Longrightarrow> off + length pat \<le> length bs \<Longrightarrow>
   masked_to_wilcard w pat msk u a off st =
     Inr (st\<lparr>heap := (heap st)(a \<mapsto> take off bs @ map2 (\<lambda>x m. if m \<noteq> u then x else w) pat msk
                                      @ drop (off + length pat) bs)\<rparr>)"
proof (induction pat arbitrary: msk off st bs)
  case Nil
  then have "(heap st)(a \<mapsto> bs) = heap st" by (simp add: fun_upd_idem)
  with Nil show ?case by simp
next
  case (Cons x xs)
  then obtain m ms where msk: "msk = m # ms" by (cases msk) auto
  define v where "v = (if m \<noteq> u then x else w)"
  define st1 where "st1 = st\<lparr>heap := (heap st)(a \<mapsto> bs[off := v])\<rparr>"
  define rest where "rest = map2 (\<lambda>x m. if m \<noteq> u then x else w) xs ms"
  from Cons.prems have off: "off < length bs" by simp
  with Cons.prems have s: "store_byte a off v st = Inr st1"
    by (simp add: store_byte_def st1_def)
  have h1: "heap st1 a = Some (bs[off := v])" by (simp add: st1_def)
  have ih: "masked_to_wilcard w xs ms u a (Suc off) st1 =
      Inr (st1\<lparr>heap := (heap st1)(a \<mapsto> take (Suc off) (bs[off := v]) @ rest
              @ drop (Suc off + length xs) (bs[off := v]))\<rparr>)"
    unfolding rest_def using Cons.prems msk by (intro Cons.IH[OF h1]) simp_all
  have t: "take (Suc off) (bs[off := v]) = take off bs @ [v]"
    using off by (simp add: take_Suc_conv_app_nth)
  have d: "drop (Suc off + length xs) (bs[off := v]) = drop (off + length (x # xs)) bs"
    by simp
  have z: "map2 (\<lambda>x m. if m \<noteq> u then x else w) (x # xs) (m # ms) = v # rest"
    by (simp add: v_def rest_def)
  have "masked_to_wilcard w (x # xs) (m # ms) u a off st =
      masked_to_wilcard w xs ms u a (Suc off) st1"
    using s by (simp add: v_def)
  also have "\<dots> = Inr (st1\<lparr>heap := (heap st1)(a \<mapsto> take off bs @ (v # rest)
              @ drop (off + length (x # xs)) bs)\<rparr>)"
    by (simp only: ih t d append_Cons append_Nil append_assoc)
  also have "\<dots> = Inr (st\<lparr>heap := (heap st)(a \<mapsto> take off bs @ (v # rest)
              @ drop (off + length (x # xs)) bs)\<rparr>)"
    by (simp add: st1_def)
  finally show ?case by (simp only: msk z)
qed

lemma ctor_masked_result:
  assumes "find_wildcard_masked pat msk u = Inr w" and "length pat = length msk"
  shows "ctor_masked x pat msk u st =
     Inr (put x \<lparr>m_pattern = Some (fresh st), m_end = Ptr (fresh st) (length pat), m_wildcard = w\<rparr>
            (st\<lparr>fresh := Suc (fresh st),
                heap := (heap st)(fresh st \<mapsto> map2 (\<lambda>x m. if m \<noteq> u then x else w) pat msk)\<rparr>))"
proof -
  let ?st1 = "st\<lparr>heap := (heap st)(fresh st \<mapsto> replicate (length pat) 0), fresh := Suc (fresh st)\<rparr>"
  have "masked_to_wilcard w pat msk u (fresh st) 0 ?st1 =
     Inr (?st1\<lparr>heap := (heap ?st1)(fresh st \<mapsto> take 0 (replicate (length pat) 0)
        @ map2 (\<lambda>x m. if m \<noteq> u then x else w) pat msk @ drop (0 + length pat) (replicate (length pat) 0))\<rparr>)"
    using assms(2) by (intro masked_to_wilcard_result) simp_all
  then show ?thesis
    using assms by (simp add: ctor_masked_def new_array_def Let_def)
qed

lemma ctor_masked_Inr:
  assumes "ctor_masked x pat msk u st = Inr st'"
  obtains w where "find_wildcard_masked pat msk u = Inr w" and "length pat = length msk"
  using assms
  by (cases "find_wildcard_masked pat msk u")
     (auto simp: ctor_masked_def new_array_def Let_def split: if_splits)

lemma ctor_default_abs:
  shows "valid (ctor_default x st) x" and "bytes_of (ctor_default x st) x = []"
    and "wildcard_of (ctor_default x st) x = 0" and "owned (ctor_default x st) x = None"
  by (simp_all add: ctor_default_def put_def valid_def bytes_of_def wildcard_of_def owned_def)

lemma ctor_masked_abs:
  assumes "ctor_masked x pat msk u st = Inr st'"
  obtains w where "find_wildcard_masked pat msk u = Inr w" and "length pat = length msk"
    and "valid st' x" and "bytes_of st' x = map2 (\<lambda>x m. if m \<noteq> u then x else w) pat msk"
    and "wildcard_of st' x = w" and "owned st' x = Some (fresh st)"
proof -
  from assms obtain w where w: "find_wildcard_masked pat msk u = Inr w"
    and l: "length pat = length msk" by (rule ctor_masked_Inr)
  let ?bs = "map2 (\<lambda>x m. if m \<noteq> u then x else w) pat msk"
  from l have n: "length pat = length ?bs" by simp
  from assms have st': "st' =
      put x \<lparr>m_pattern = Some (fresh st), m_end = Ptr (fresh st) (length pat), m_wildcard = w\<rparr>
        (st\<lparr>fresh := Suc (fresh st), heap := (heap st)(fresh st \<mapsto> ?bs)\<rparr>)"
    by (simp only: ctor_masked_result[OF w l] sum.inject)
  have o: "objs st' x =
      Some \<lparr>m_pattern = Some (fresh st), m_end = Ptr (fresh st) (length ?bs), m_wildcard = w\<rparr>"
    unfolding st' using n by (simp add: put_def)
  have h: "heap st' (fresh st) = Some ?bs" unfolding st' by (simp add: put_def)
  from built[OF o h] w l show ?thesis by (intro that)
qed

text \<open>What a constructor may change: the object it builds, and at most one fresh block.\<close>

lemma construct_shape:
  assumes "construct args y st = Inr st'"
  shows "\<forall>x. x \<noteq> y \<longrightarrow> objs st' x = objs st x"
    and "(heap st' = heap st \<and> fresh st' = fresh st \<and> owned st' y = None) \<or>
         (\<exists>bs. heap st' = (heap st)(fresh st \<mapsto> bs) \<and> fresh st' = Suc (fresh st) \<and>
               owned st' y = Some (fresh st))"
proof -
  have "(\<forall>x. x \<noteq> y \<longrightarrow> objs st' x = objs st x) \<and>
        ((heap st' = heap st \<and> fresh st' = fresh st \<and> owned st' y = None) \<or>
         (\<exists>bs. heap st' = (heap st)(fresh st \<mapsto> bs) \<and> fresh st' = Suc (fresh st) \<and>
               owned st' y = Some (fresh st)))"
  proof (cases args)
    case Default_Args
    with assms show ?thesis by (auto simp: ctor_default_def put_def owned_def)
  next
    case (Wildcard_Args pat w)
    with assms show ?thesis by (auto simp: ctor_wildcard_result put_def owned_def)
  next
    case (Masked_Args pat msk u)
    with assms have c: "ctor_masked y pat msk u st = Inr st'" by simp
    then obtain w where w: "find_wildcard_masked pat msk u = Inr w"
      and l: "length pat = length msk" by (rule ctor_masked_Inr)
    from c show ?thesis
      unfolding ctor_masked_result[OF w l] by (auto simp: put_def owned_def)
  qed
  then show "\<forall>x. x \<noteq> y \<longrightarrow> objs st' x = objs st x"
    and "(heap st' = heap st \<and> fresh st' = fresh st \<and> owned st' y = None) \<or>
         (\<exists>bs. heap st' = (heap st)(fresh st \<mapsto> bs) \<and> fresh st' = Suc (fresh st) \<and>
               owned st' y = Some (fresh st))"
    by blast+
qed

lemma construct_heap_fresh:
  assumes "construct args y st = Inr st'" and "heap_fresh st"
  shows "heap_fresh st'"
  using construct_shape(2)[OF assms(1)] assms(2) by (auto simp: heap_fresh_def)

lemma construct_frame:
  assumes "construct args y st = Inr st'" and "x \<noteq> y" and "valid st x" and "heap_fresh st"
  shows "valid st' x" and "bytes_of st' x = bytes_of st x"
    and "wildcard_of st' x = wildcard_of st x" and "owned st' x = owned st x"
proof -
  from construct_shape(1)[OF assms(1)] assms(2) have o: "objs st' x = objs st x" by simp
  have h: "heap st' a = Some bs" if "heap st a = Some bs" and "owned st x = Some a" for a bs
  proof -
    from valid_owned_below[OF assms(3) that(2) assms(4)] have "a \<noteq> fresh st" by simp
    with construct_shape(2)[OF assms(1)] that(1) show ?thesis by auto
  qed
  from frame[OF assms(3) o h] show "valid st' x" and "bytes_of st' x = bytes_of st x"
    and "wildcard_of st' x = wildcard_of st x" and "owned st' x = owned st x"
    by blast+
qed

lemma construct_same:
  assumes "construct args x sa = Inr sa'" and "construct args y sb = Inr sb'"
  shows "valid sa' x" and "valid sb' y" and "bytes_of sa' x = bytes_of sb' y"
    and "wildcard_of sa' x = wildcard_of sb' y"
proof -
  have "valid sa' x \<and> valid sb' y \<and> bytes_of sa' x = bytes_of sb' y \<and>
        wildcard_of sa' x = wildcard_of sb' y"
  proof (cases args)
    case Default_Args
    with assms show ?thesis by (auto simp: ctor_default_abs)
  next
    case (Wildcard_Args pat w)
    with assms have a: "ctor_wildcard x pat w sa = Inr sa'"
      and b: "ctor_wildcard y pat w sb = Inr sb'" by simp_all
    from ctor_wildcard_abs(1-3)[OF a] ctor_wildcard_abs(1-3)[OF b] show ?thesis by simp
  next
    case (Masked_Args pat msk u)
    with assms have a: "ctor_masked x pat msk u sa = Inr sa'"
      and b: "ctor_masked y pat msk u sb = Inr sb'" by simp_all
    from a obtain w where w: "find_wildcard_masked pat msk u = Inr w" and va: "valid sa' x"
      and ba: "bytes_of sa' x = map2 (\<lambda>x m. if m \<noteq> u then x else w) pat msk"
      and wa: "wildcard_of sa' x = w" by (rule ctor_masked_abs)
    from b obtain w' where w': "find_wildcard_masked pat msk u = Inr w'" and vb: "valid sb' y"
      and bb: "bytes_of sb' y = map2 (\<lambda>x m. if m \<noteq> u then x else w') pat msk"
      and wb: "wildcard_of sb' y = w'" by (rule ctor_masked_abs)
    from w w' have e: "w' = w" by simp
    show ?thesis using va vb by (simp only: ba bb wa wb e simp_thms)
  qed
  then show "valid sa' x" and "valid sb' y" and "bytes_of sa' x = bytes_of sb' y"
    and "wildcard_of sa' x = wildcard_of sb' y" by blast+
qed

lemma size_sig_valid:
  assumes "valid st x" and "objs st x = Some s"
  shows "size_sig s = Inr (length (bytes_of st x))"
  using assms
  by (auto simp: valid_def bytes_of_def size_sig_def get_def split: option.splits)

lemma read_range_valid:
  assumes "valid st x" and "objs st x = Some s"
    and "\<And>a bs. heap st a = Some bs \<Longrightarrow> m_pattern s = Some a \<Longrightarrow> heap st1 a = Some bs"
  shows "read_range st1 (get (m_pattern s)) (m_end s) = Inr (bytes_of st x)"
  using assms
  by (auto simp: valid_def bytes_of_def get_def split: option.splits)

lemma copy_ctor_result:
  assumes "valid st x" and "heap_fresh st"
  shows "copy_ctor y x st =
     Inr (put y \<lparr>m_pattern = Some (fresh st), m_end = Ptr (fresh st) (length (bytes_of st x)),
                 m_wildcard = wildcard_of st x\<rparr>
            (st\<lparr>fresh := Suc (fresh st), heap := (heap st)(fresh st \<mapsto> bytes_of st x)\<rparr>))"
proof -
  from assms(1) obtain s where s: "objs st x = Some s"
    by (auto simp: valid_def split: option.splits)
  define n where "n = length (bytes_of st x)"
  define st1 where "st1 = st\<lparr>heap := (heap st)(fresh st \<mapsto> replicate n 0), fresh := Suc (fresh st)\<rparr>"
  have sz: "size_sig s = Inr n" unfolding n_def by (rule size_sig_valid[OF assms(1) s])
  have w: "m_wildcard s = wildcard_of st x" using s by (simp add: wildcard_of_def)
  have rd: "read_range st1 (get (m_pattern s)) (m_end s) = Inr (bytes_of st x)"
  proof (rule read_range_valid[OF assms(1) s])
    fix a bs assume h: "heap st a = Some bs" and p: "m_pattern s = Some a"
    from p s have "owned st x = Some a" by (simp add: owned_def)
    from valid_owned_below[OF assms(1) this assms(2)] have "a \<noteq> fresh st" by simp
    with h show "heap st1 a = Some bs" by (simp add: st1_def)
  qed
  have cp: "std_copy (get (m_pattern s)) (m_end s) (fresh st) st1 =
      Inr (st\<lparr>fresh := Suc (fresh st), heap := (heap st)(fresh st \<mapsto> bytes_of st x)\<rparr>)"
    unfolding std_copy_def rd and_then_Inr
    by (simp add: write_block_def st1_def n_def)
  show ?thesis
    using cp by (simp add: copy_ctor_def lookup_def s sz w new_array_def st1_def n_def)
qed

lemma copy_assign_result:
  assumes "valid st x" and "valid st y" and "x \<noteq> y" and "heap_fresh st"
  shows "copy_assign y x st =
     Inr (put y \<lparr>m_pattern = Some (fresh st), m_end = Ptr (fresh st) (length (bytes_of st x)),
                 m_wildcard = wildcard_of st x\<rparr>
            (delete_array (owned st y)
               (st\<lparr>fresh := Suc (fresh st), heap := (heap st)(fresh st \<mapsto> bytes_of st x)\<rparr>)))"
proof -
  from assms(1) obtain s where s: "objs st x = Some s"
    by (auto simp: valid_def split: option.splits)
  from assms(2) obtain t where t: "objs st y = Some t"
    by (auto simp: valid_def split: option.splits)
  obtain tp te tw where tf: "t = \<lparr>m_pattern = tp, m_end = te, m_wildcard = tw\<rparr>"
    by (cases t) auto
  define n where "n = length (bytes_of st x)"
  define st1 where "st1 = st\<lparr>heap := (heap st)(fresh st \<mapsto> replicate n 0), fresh := Suc (fresh st)\<rparr>"
  define st2 where "st2 = st\<lparr>fresh := Suc (fresh st), heap := (heap st)(fresh st \<mapsto> bytes_of st x)\<rparr>"
  have sz: "size_sig s = Inr n" unfolding n_def by (rule size_sig_valid[OF assms(1) s])
  have w: "m_wildcard s = wildcard_of st x" using s by (simp add: wildcard_of_def)
  have ow: "owned st y = tp" using t tf by (simp add: owned_def)
  have rd: "read_range st1 (get (m_pattern s)) (m_end s) = Inr (bytes_of st x)"
  proof (rule read_range_valid[OF assms(1) s])
    fix a bs assume h: "heap st a = Some bs" and p: "m_pattern s = Some a"
    from p s have "owned st x = Some a" by (simp add: owned_def)
    from valid_owned_below[OF assms(1) this assms(4)] have "a \<noteq> fresh st" by simp
    with h show "heap st1 a = Some bs" by (simp add: st1_def)
  qed
  have cp: "std_copy (get (m_pattern s)) (m_end s) (fresh st) st1 = Inr st2"
    unfolding std_copy_def rd and_then_Inr
    by (simp add: write_block_def st1_def st2_def n_def)
  have na: "new_array n st = (fresh st, st1)" by (simp add: new_array_def st1_def)
  have o2: "objs st2 = objs st" by (simp add: st2_def)
  have g: "get (Some a) = Ptr a 0" for a by (simp add: get_def)
  show ?thesis
    unfolding copy_assign_def
    using assms(3)
    by (cases tp)
       (simp_all add: lookup_def s sz na cp o2 t tf w ow put_def delete_array_def g
          st2_def[symmetric] n_def[symmetric])
qed

lemma copy_effect:
  assumes st': "st' = put y \<lparr>m_pattern = Some (fresh st), m_end = Ptr (fresh st) (length bs),
                             m_wildcard = w\<rparr>
                 (delete_array d (st\<lparr>fresh := Suc (fresh st), heap := (heap st)(fresh st \<mapsto> bs)\<rparr>))"
    and hf: "heap_fresh st" and v: "valid st x" and ne: "x \<noteq> y"
    and d: "d = None \<or> (\<exists>b. d = Some b \<and> b < fresh st \<and> owned st x \<noteq> Some b)"
  shows "valid st' y" and "bytes_of st' y = bs" and "wildcard_of st' y = w"
    and "valid st' x" and "bytes_of st' x = bytes_of st x"
    and "wildcard_of st' x = wildcard_of st x" and "separate st' x y"
proof -
  have o: "objs st' y = Some \<lparr>m_pattern = Some (fresh st), m_end = Ptr (fresh st) (length bs),
      m_wildcard = w\<rparr>"
    unfolding st' by (simp add: put_def delete_array_def split: option.splits)
  have h: "heap st' (fresh st) = Some bs"
    unfolding st' using d by (auto simp: put_def delete_array_def)
  from built[OF o h] show "valid st' y" and "bytes_of st' y = bs" and "wildcard_of st' y = w"
    by blast+
  have oy: "owned st' y = Some (fresh st)" by (rule built(4)[OF o h])
  have ox: "objs st' x = objs st x"
    unfolding st' using ne by (simp add: put_def delete_array_def split: option.splits)
  have hx: "heap st' a = Some cs" if "heap st a = Some cs" and "owned st x = Some a" for a cs
  proof -
    from valid_owned_below[OF v that(2) hf] have "a \<noteq> fresh st" by simp
    with that d show ?thesis unfolding st' by (auto simp: put_def delete_array_def)
  qed
  from frame[OF v ox hx] show "valid st' x" and "bytes_of st' x = bytes_of st x"
    and "wildcard_of st' x = wildcard_of st x" by blast+
  have "owned st' x = owned st x" by (rule frame(4)[OF v ox hx])
  moreover have "a \<noteq> fresh st" if "owned st x = Some a" for a
    using valid_owned_below[OF v that hf] by simp
  ultimately show "separate st' x y" using oy by (auto simp: separate_def split: option.splits)
qed

text \<open>
  C2. The length check is the first statement of the constructor body; the wildcard
  derivation is a member initialiser and runs before it, walking the mask for the length
  of the literal. With the 256 byte values as literal and a mask of 257 known entries the
  construction ends in \<^verbatim>\<open>std::range_error\<close>, not in the length-mismatch error; with a
  mask shorter than the literal the derivation reads past the end of the mask before the
  lengths are compared.
\<close>

theorem length_check_after_derivation:
  "ctor_masked 0 (map of_nat [0..<256]) (replicate 257 0x78) 0x3F empty_state = Inl Range_Error \<and>
   ctor_masked 0 [0x01, 0x02] [0x78] 0x3F empty_state = Inl Undefined_Behaviour"
proof -
  have fill: "find_wildcard_fill (mask_cmp 0x3F) (map of_nat [0..<256]) (replicate 257 0x78)
      (\<lambda>i. False) = Inr (\<lambda>i. False \<or> i \<in> unat ` set (map of_nat [0..<256] :: byte list))"
    by (rule fill_all_bytes) simp_all
  have scan: "find_wildcard_scan (\<lambda>i. False \<or> i \<in> unat ` set (map of_nat [0..<256] :: byte list))
      = Inl Range_Error"
    by (rule find_wildcard_scan_full) (intro allI impI disjI2 unat_all_bytes)
  have "find_wildcard_masked (map of_nat [0..<256]) (replicate 257 0x78) 0x3F = Inl Range_Error"
    unfolding find_wildcard_masked_def find_wildcard_def
    by (simp only: fill and_then_Inr scan)
  then have a: "ctor_masked 0 (map of_nat [0..<256]) (replicate 257 0x78) 0x3F empty_state = Inl Range_Error"
    by (simp add: ctor_masked_def new_array_def)
  have "find_wildcard_masked [0x01, 0x02] [0x78] 0x3F = Inl Undefined_Behaviour"
    by (simp add: find_wildcard_masked_def find_wildcard_def)
  then have b: "ctor_masked 0 [0x01, 0x02] [0x78] 0x3F empty_state = Inl Undefined_Behaviour"
    by (simp add: ctor_masked_def new_array_def)
  from a b show ?thesis by (rule conjI)
qed

text \<open>
  C7. Two objects built one after the other from the same constructor arguments, a
  copy-constructed object and its original, and a copy-assigned object and its (distinct)
  original give the same \<^verbatim>\<open>find\<close> result on every buffer, and own different blocks. The
  original's results are those it gave before the copy.
\<close>

theorem copies_matching_equivalent:
  assumes "heap_fresh st" and "x \<noteq> y"
  shows
    "(\<forall>st1 st2. construct args x st = Inr st1 \<and> construct args y st1 = Inr st2 \<longrightarrow>
        (\<forall>buf. find_sig st2 x buf = find_sig st2 y buf) \<and> separate st2 x y) \<and>
     (valid st x \<longrightarrow>
        (\<exists>st'. copy_ctor y x st = Inr st' \<and>
           (\<forall>buf. find_sig st' y buf = find_sig st' x buf \<and>
                  find_sig st' x buf = find_sig st x buf) \<and>
           separate st' x y)) \<and>
     (valid st x \<and> valid st y \<and> separate st x y \<longrightarrow>
        (\<exists>st'. copy_assign y x st = Inr st' \<and>
           (\<forall>buf. find_sig st' y buf = find_sig st' x buf \<and>
                  find_sig st' x buf = find_sig st x buf) \<and>
           separate st' x y))"
proof (intro conjI)
  show "\<forall>st1 st2. construct args x st = Inr st1 \<and> construct args y st1 = Inr st2 \<longrightarrow>
        (\<forall>buf. find_sig st2 x buf = find_sig st2 y buf) \<and> separate st2 x y"
  proof (intro allI impI conjI)
  fix st1 st2 buf
  assume "construct args x st = Inr st1 \<and> construct args y st1 = Inr st2"
  then have c1: "construct args x st = Inr st1" and c2: "construct args y st1 = Inr st2"
    by blast+
  note same = construct_same[OF c1 c2]
  have hf1: "heap_fresh st1" by (rule construct_heap_fresh[OF c1 assms(1)])
  note fr = construct_frame[OF c2 assms(2) same(1) hf1]
  show "find_sig st2 x buf = find_sig st2 y buf"
    by (simp only: find_sig_valid[OF fr(1)] find_sig_valid[OF same(2)] fr(2,3) same(3,4))
next
  fix st1 st2
  assume "construct args x st = Inr st1 \<and> construct args y st1 = Inr st2"
  then have c1: "construct args x st = Inr st1" and c2: "construct args y st1 = Inr st2"
    by blast+
  note same = construct_same[OF c1 c2]
  have hf1: "heap_fresh st1" by (rule construct_heap_fresh[OF c1 assms(1)])
  note fr = construct_frame[OF c2 assms(2) same(1) hf1]
  from construct_shape(2)[OF c1] construct_shape(2)[OF c2] fr(4)
  show "separate st2 x y" by (auto simp: separate_def)
qed
next
  show "valid st x \<longrightarrow>
        (\<exists>st'. copy_ctor y x st = Inr st' \<and>
           (\<forall>buf. find_sig st' y buf = find_sig st' x buf \<and>
                  find_sig st' x buf = find_sig st x buf) \<and>
           separate st' x y)"
  proof
  assume v: "valid st x"
  define st' where "st' =
      put y \<lparr>m_pattern = Some (fresh st), m_end = Ptr (fresh st) (length (bytes_of st x)),
             m_wildcard = wildcard_of st x\<rparr>
        (delete_array None
           (st\<lparr>fresh := Suc (fresh st), heap := (heap st)(fresh st \<mapsto> bytes_of st x)\<rparr>))"
  have r: "copy_ctor y x st = Inr st'"
    unfolding st'_def copy_ctor_result[OF v assms(1)] by (simp add: delete_array_def)
  note e = copy_effect[OF st'_def assms(1) v assms(2)]
  have d: "None = None \<or> (\<exists>b. None = Some b \<and> b < fresh st \<and> owned st x \<noteq> Some b)" by simp
  have "find_sig st' y buf = find_sig st' x buf \<and> find_sig st' x buf = find_sig st x buf" for buf
    by (simp only: find_sig_valid[OF e(1)[OF d]] find_sig_valid[OF e(4)[OF d]]
        find_sig_valid[OF v] e(2,3,5,6)[OF d] simp_thms)
  with r e(7)[OF d]
  show "\<exists>st'. copy_ctor y x st = Inr st' \<and>
           (\<forall>buf. find_sig st' y buf = find_sig st' x buf \<and>
                  find_sig st' x buf = find_sig st x buf) \<and>
           separate st' x y"
    by blast
qed
next
  show "valid st x \<and> valid st y \<and> separate st x y \<longrightarrow>
        (\<exists>st'. copy_assign y x st = Inr st' \<and>
           (\<forall>buf. find_sig st' y buf = find_sig st' x buf \<and>
                  find_sig st' x buf = find_sig st x buf) \<and>
           separate st' x y)"
  proof
  assume "valid st x \<and> valid st y \<and> separate st x y"
  then have v: "valid st x" and vy: "valid st y" and sep: "separate st x y" by blast+
  define st' where "st' =
      put y \<lparr>m_pattern = Some (fresh st), m_end = Ptr (fresh st) (length (bytes_of st x)),
             m_wildcard = wildcard_of st x\<rparr>
        (delete_array (owned st y)
           (st\<lparr>fresh := Suc (fresh st), heap := (heap st)(fresh st \<mapsto> bytes_of st x)\<rparr>))"
  have r: "copy_assign y x st = Inr st'"
    unfolding st'_def by (rule copy_assign_result[OF v vy assms(2,1)])
  have d: "owned st y = None \<or>
      (\<exists>b. owned st y = Some b \<and> b < fresh st \<and> owned st x \<noteq> Some b)"
  proof (cases "owned st y")
    case None
    then show ?thesis by simp
  next
    case (Some b)
    from valid_owned_below[OF vy Some assms(1)] have "b < fresh st" .
    moreover from sep Some have "owned st x \<noteq> Some b"
      by (auto simp: separate_def split: option.splits)
    ultimately show ?thesis using Some by simp
  qed
  note e = copy_effect[OF st'_def assms(1) v assms(2) d]
  have "find_sig st' y buf = find_sig st' x buf \<and> find_sig st' x buf = find_sig st x buf" for buf
    by (simp only: find_sig_valid[OF e(1)] find_sig_valid[OF e(4)]
        find_sig_valid[OF v] e(2,3,5,6) simp_thms)
  with r e(7)
  show "\<exists>st'. copy_assign y x st = Inr st' \<and>
           (\<forall>buf. find_sig st' y buf = find_sig st' x buf \<and>
                  find_sig st' x buf = find_sig st x buf) \<and>
           separate st' x y"
    by blast
qed
qed

theorem copies_matching_equivalent_witness:
  "heap_fresh example_state2 \<and> valid example_state2 0 \<and> valid example_state2 1 \<and>
   separate example_state2 0 1 \<and>
   (\<exists>st'. copy_ctor 1 0 example_state2 = Inr st' \<and>
      (\<forall>buf. find_sig st' 1 buf = find_sig st' 0 buf \<and>
             find_sig st' 0 buf = find_sig example_state2 0 buf) \<and>
      separate st' 0 1) \<and>
   (\<exists>st'. copy_assign 1 0 example_state2 = Inr st' \<and>
      (\<forall>buf. find_sig st' 1 buf = find_sig st' 0 buf \<and>
             find_sig st' 0 buf = find_sig example_state2 0 buf) \<and>
      separate st' 0 1) \<and>
   heap_fresh empty_state \<and>
   (\<exists>st1 st2. construct (Wildcard_Args [0x41, 0x00] 0) 0 empty_state = Inr st1 \<and>
      construct (Wildcard_Args [0x41, 0x00] 0) 1 st1 = Inr st2 \<and>
      (\<forall>buf. find_sig st2 0 buf = find_sig st2 1 buf) \<and> separate st2 0 1)"
proof -
  have ne: "(0::nat) \<noteq> 1" by simp
  have hf: "heap_fresh example_state2" by (simp add: heap_fresh_def example_state2_def)
  have v0: "valid example_state2 0" by (simp add: valid_def example_state2_def)
  have v1: "valid example_state2 1" by (simp add: valid_def example_state2_def)
  have sep: "separate example_state2 0 1"
    by (simp add: separate_def owned_def example_state2_def)
  note t = copies_matching_equivalent[OF hf ne, of Default_Args]
  have b: "\<exists>st'. copy_ctor 1 0 example_state2 = Inr st' \<and>
      (\<forall>buf. find_sig st' 1 buf = find_sig st' 0 buf \<and>
             find_sig st' 0 buf = find_sig example_state2 0 buf) \<and>
      separate st' 0 1"
    by (rule mp[OF t[THEN conjunct2, THEN conjunct1] v0])
  have c: "\<exists>st'. copy_assign 1 0 example_state2 = Inr st' \<and>
      (\<forall>buf. find_sig st' 1 buf = find_sig st' 0 buf \<and>
             find_sig st' 0 buf = find_sig example_state2 0 buf) \<and>
      separate st' 0 1"
    by (rule mp[OF t[THEN conjunct2, THEN conjunct2]]) (intro conjI v0 v1 sep)
  have hf0: "heap_fresh empty_state" by (simp add: heap_fresh_def empty_state_def)
  let ?args = "Wildcard_Args [0x41, 0x00] 0"
  obtain st1 where c1: "construct ?args 0 empty_state = Inr st1"
    by (simp add: ctor_wildcard_result)
  obtain st2 where c2: "construct ?args 1 st1 = Inr st2"
    by (simp add: ctor_wildcard_result)
  from copies_matching_equivalent[OF hf0 ne, of ?args]
  have "\<forall>st1 st2. construct ?args 0 empty_state = Inr st1 \<and> construct ?args 1 st1 = Inr st2 \<longrightarrow>
        (\<forall>buf. find_sig st2 0 buf = find_sig st2 1 buf) \<and> separate st2 0 1"
    by (rule conjunct1)
  then have "construct ?args 0 empty_state = Inr st1 \<and> construct ?args 1 st1 = Inr st2 \<longrightarrow>
        (\<forall>buf. find_sig st2 0 buf = find_sig st2 1 buf) \<and> separate st2 0 1"
    by (elim allE)
  with c1 c2 have "(\<forall>buf. find_sig st2 0 buf = find_sig st2 1 buf) \<and> separate st2 0 1"
    by simp
  with c1 c2 have a: "\<exists>st1 st2. construct ?args 0 empty_state = Inr st1 \<and>
      construct ?args 1 st1 = Inr st2 \<and>
      (\<forall>buf. find_sig st2 0 buf = find_sig st2 1 buf) \<and> separate st2 0 1"
    by (intro exI[of _ st1] exI[of _ st2] conjI) simp_all
  from hf v0 v1 sep b c hf0 a show ?thesis by (intro conjI)
qed

section \<open>Moves and self-assignment\<close>

text \<open>
  Copy assignment of an object to itself: after \<^verbatim>\<open>_pattern = std::move(new_pat)\<close> the
  expression \<^verbatim>\<open>other.size()\<close> subtracts the new \<^verbatim>\<open>_pattern.get()\<close> from the old \<^verbatim>\<open>_end\<close>,
  two pointers into different arrays.
\<close>

lemma copy_assign_self:
  assumes "valid st x" and "heap_fresh st"
  shows "copy_assign x x st = Inl Undefined_Behaviour"
proof -
  from assms(1) obtain s where s: "objs st x = Some s"
    by (auto simp: valid_def split: option.splits)
  obtain sp se sw where sf: "s = \<lparr>m_pattern = sp, m_end = se, m_wildcard = sw\<rparr>"
    by (cases s) auto
  define n where "n = length (bytes_of st x)"
  define st1 where "st1 = st\<lparr>heap := (heap st)(fresh st \<mapsto> replicate n 0), fresh := Suc (fresh st)\<rparr>"
  define st2 where "st2 = st\<lparr>fresh := Suc (fresh st), heap := (heap st)(fresh st \<mapsto> bytes_of st x)\<rparr>"
  have sz: "size_sig s = Inr n" unfolding n_def by (rule size_sig_valid[OF assms(1) s])
  have rd: "read_range st1 (get (m_pattern s)) (m_end s) = Inr (bytes_of st x)"
  proof (rule read_range_valid[OF assms(1) s])
    fix a bs assume h: "heap st a = Some bs" and p: "m_pattern s = Some a"
    from p s have "owned st x = Some a" by (simp add: owned_def)
    from valid_owned_below[OF assms(1) this assms(2)] have "a \<noteq> fresh st" by simp
    with h show "heap st1 a = Some bs" by (simp add: st1_def)
  qed
  have cp: "std_copy (get (m_pattern s)) (m_end s) (fresh st) st1 = Inr st2"
    unfolding std_copy_def rd and_then_Inr
    by (simp add: write_block_def st1_def st2_def n_def)
  have na: "new_array n st = (fresh st, st1)" by (simp add: new_array_def st1_def)
  have o2: "objs st2 = objs st" by (simp add: st2_def)
  have g: "get (Some a) = Ptr a 0" for a by (simp add: get_def)
  have e: "ptr_diff se (Ptr (fresh st) 0) = Inl Undefined_Behaviour"
  proof (cases sp)
    case None
    with assms(1) s sf have "se = Null" by (simp add: valid_def)
    then show ?thesis by simp
  next
    case (Some a)
    with s sf have "owned st x = Some a" by (simp add: owned_def)
    from valid_owned_below[OF assms(1) this assms(2)] have "a \<noteq> fresh st" by simp
    moreover from assms(1) s sf Some have "\<exists>k. se = Ptr a k"
      by (auto simp: valid_def split: option.splits)
    ultimately show ?thesis by auto
  qed
  have sz2: "size_sig \<lparr>m_pattern = Some (fresh st), m_end = se, m_wildcard = sw\<rparr> =
      Inl Undefined_Behaviour"
    by (simp add: size_sig_def g e)
  show ?thesis
    unfolding copy_assign_def
    by (simp add: lookup_def s sz[unfolded sf] na cp[unfolded sf, simplified] o2 sf put_def
          delete_array_def g sz2 split: option.splits)
qed

text \<open>
  A move takes the block and nulls only \<^verbatim>\<open>other._pattern\<close>: \<^verbatim>\<open>other._end\<close> keeps pointing
  into the block the destination now owns, the guard of \<^verbatim>\<open>find\<close> does not see the source
  as empty, and the range \<^verbatim>\<open>[nullptr, _end)\<close> is handed to \<^verbatim>\<open>std::search\<close>.
\<close>

lemma move_ctor_source:
  assumes "valid st x" and "owned st x = Some a" and "x \<noteq> y"
  shows "\<exists>st'. move_ctor y x st = Inr st' \<and> valid st' y \<and> bytes_of st' y = bytes_of st x \<and>
           wildcard_of st' y = wildcard_of st x \<and> owned st' y = Some a \<and>
           \<not> valid st' x \<and> (\<forall>buf. find_sig st' x buf = Inl Undefined_Behaviour)"
proof -
  from assms(1) obtain s where s: "objs st x = Some s"
    by (auto simp: valid_def split: option.splits)
  obtain se sw where sf: "s = \<lparr>m_pattern = Some a, m_end = se, m_wildcard = sw\<rparr>"
    using assms(2) s by (cases s) (auto simp: owned_def)
  from assms(1) s sf obtain bs where h: "heap st a = Some bs" and e: "se = Ptr a (length bs)"
    by (auto simp: valid_def split: option.splits)
  show ?thesis
    using assms(3) h
    by (simp add: move_ctor_def lookup_def s sf e put_def valid_def bytes_of_def
        wildcard_of_def owned_def find_sig_def get_def)
qed

text \<open>
  C6. The signature \<^verbatim>\<open>{0x41}\<close> is moved from, by the move constructor and by move
  assignment. The destination owns the block. The source is left with a null
  \<^verbatim>\<open>_pattern\<close> and the old \<^verbatim>\<open>_end\<close>, which is not the empty state, and \<^verbatim>\<open>find\<close> on it over
  the buffer \<^verbatim>\<open>{0x41}\<close> is undefined instead of returning the end of the buffer.
\<close>

theorem moved_from_source_not_empty:
  "and_then (ctor_wildcard 0 [0x41] 0 empty_state) (\<lambda>st.
     and_then (move_ctor 1 0 st) (\<lambda>st'. Inr (objs st' 0, objs st' 1))) =
     Inr (Some \<lparr>m_pattern = None, m_end = Ptr 0 1, m_wildcard = 0\<rparr>,
          Some \<lparr>m_pattern = Some 0, m_end = Ptr 0 1, m_wildcard = 0\<rparr>) \<and>
   and_then (ctor_wildcard 0 [0x41] 0 empty_state) (\<lambda>st.
     and_then (move_ctor 1 0 st) (\<lambda>st'. find_sig st' 0 [0x41])) = Inl Undefined_Behaviour \<and>
   and_then (ctor_wildcard 0 [0x41] 0 (ctor_default 1 empty_state)) (\<lambda>st.
     and_then (move_assign 1 0 st) (\<lambda>st'. Inr (objs st' 0, objs st' 1))) =
     Inr (Some \<lparr>m_pattern = None, m_end = Ptr 0 1, m_wildcard = 0\<rparr>,
          Some \<lparr>m_pattern = Some 0, m_end = Ptr 0 1, m_wildcard = 0\<rparr>) \<and>
   and_then (ctor_wildcard 0 [0x41] 0 (ctor_default 1 empty_state)) (\<lambda>st.
     and_then (move_assign 1 0 st) (\<lambda>st'. find_sig st' 0 [0x41])) = Inl Undefined_Behaviour"
  by (simp add: run_defs)

text \<open>
  C8. \<^verbatim>\<open>find\<close> is a total function of the model, so it terminates, but it can fail. The
  signature \<^verbatim>\<open>{0x41, 0x42}\<close> searched in the shorter buffer \<^verbatim>\<open>{0x41}\<close> gives the end of the
  buffer, position 1. After the signature has been moved from, the same call is not a
  normal 'not found': the source holds a null \<^verbatim>\<open>_pattern\<close> and the old \<^verbatim>\<open>_end\<close>, the guard
  for the empty pattern does not fire, and \<^verbatim>\<open>std::search\<close> is handed the range
  \<^verbatim>\<open>[nullptr, _end)\<close>, which is undefined. The same holds after move assignment.
\<close>

theorem find_fails_on_moved_from:
  "and_then (ctor_wildcard 0 [0x41, 0x42] 0 empty_state) (\<lambda>st. find_sig st 0 [0x41]) = Inr 1 \<and>
   and_then (ctor_wildcard 0 [0x41, 0x42] 0 empty_state) (\<lambda>st.
     and_then (move_ctor 1 0 st) (\<lambda>st'. find_sig st' 0 [0x41])) = Inl Undefined_Behaviour \<and>
   and_then (ctor_wildcard 0 [0x41, 0x42] 0 (ctor_default 1 empty_state)) (\<lambda>st.
     and_then (move_assign 1 0 st) (\<lambda>st'. find_sig st' 0 [0x41])) = Inl Undefined_Behaviour"
  by (simp add: run_defs)

text \<open>
  C10. The signature \<^verbatim>\<open>{0x41}\<close> is copy-assigned to itself: the assignment is undefined
  (the size is computed from pointers into two different arrays), so the object's
  behaviour is not preserved.
\<close>

theorem self_copy_assign_undefined:
  "and_then (ctor_wildcard 0 [0x41] 0 empty_state) (copy_assign 0 0) = Inl Undefined_Behaviour"
  by (simp add: run_defs)

end
